theory Spec2Isabelle
  imports Complex_Main "HOL-Library.Multiset" "HOL-Library.Sublist"
begin

section \<open>The world the scripts run in\<close>

text \<open>
  The JavaScript sources read a global random source (\<open>Math.random\<close>), wait on timers,
  call a client object and allocate and mutate arrays. All of this is made explicit in one
  state record that every effectful function takes and returns:
  \<^item> \<open>arrays\<close> is the heap of arrays, addressed by references; an element is \<open>None\<close> where
    JavaScript has \<open>undefined\<close>; \<open>next_ref\<close> is the next unused address;
  \<^item> \<open>random\<close> is the sequence of values that successive calls of \<open>Math.random\<close> return and
    \<open>calls\<close> counts the calls made so far;
  \<^item> \<open>trace\<close> lists, in order, the observable actions: calls of the client and timer waits.

  Numbers are JavaScript doubles in the source. Here a random value is a real; delays,
  bounds and indices are integers. Where a random value is scaled to an integer index or
  delay the product is taken exactly. In \<open>generateWatchTime\<close>, whose result depends on how
  the products are rounded, every operation is rounded to a double.
\<close>

type_synonym ref = nat

datatype event =
    PostComment nat string "string option"
  | LikeComment nat string int
  | Delay int

record 'a world =
  arrays :: "ref \<Rightarrow> 'a option list"
  next_ref :: ref
  random :: "nat \<Rightarrow> real"
  calls :: nat
  trace :: "event list"

text \<open>\<open>Math.random()\<close>: the next value of the source.\<close>

definition Math_random :: "'a world \<Rightarrow> real \<times> 'a world" where
  "Math_random w = (random w (calls w), w\<lparr>calls := Suc (calls w)\<rparr>)"

text \<open>The contract of \<open>Math.random\<close>: every value lies in \<open>[0, 1)\<close>.\<close>

definition unit_source :: "(nat \<Rightarrow> real) \<Rightarrow> bool" where
  "unit_source f = (\<forall>n. 0 \<le> f n \<and> f n < 1)"

text \<open>
  \<open>xs[k]\<close> read: an index outside the array yields \<open>undefined\<close>.
\<close>

definition js_get :: "'a option list \<Rightarrow> int \<Rightarrow> 'a option" where
  "js_get xs k = (if 0 \<le> k \<and> k < int (length xs) then xs ! nat k else None)"

text \<open>
  \<open>xs[k] = v\<close> write: inside the array the element is replaced; past the end the array grows,
  the gap being holes; a negative index names an ordinary property and leaves the elements
  alone.
\<close>

definition js_set :: "'a option list \<Rightarrow> int \<Rightarrow> 'a option \<Rightarrow> 'a option list" where
  "js_set xs k v =
     (if k < 0 then xs
      else if k < int (length xs) then xs[nat k := v]
      else xs @ replicate (nat k - length xs) None @ [v])"

text \<open>\<open>[...array]\<close>: a fresh array holding the elements of the given one.\<close>

definition spread :: "ref \<Rightarrow> 'a world \<Rightarrow> ref \<times> 'a world" where
  "spread array w =
     (next_ref w,
      w\<lparr>arrays := (arrays w)(next_ref w := arrays w array), next_ref := Suc (next_ref w)\<rparr>)"

section \<open>utils/humanization.js\<close>

text \<open>
  \<open>randomDelay(min, max)\<close> draws \<open>Math.floor(Math.random() * (max - min + 1)) + min\<close> and
  waits that long; the wait is the \<open>Delay\<close> event.
\<close>

definition randomDelay :: "int \<Rightarrow> int \<Rightarrow> 'a world \<Rightarrow> 'a world" where
  "randomDelay minv maxv w =
     (let (r, w1) = Math_random w;
          delay = \<lfloor>r * of_int (maxv - minv + 1)\<rfloor> + minv
      in w1\<lparr>trace := trace w1 @ [Delay delay]\<rparr>)"

text \<open>\<open>randomInt(min, max)\<close>: the same draw, returned.\<close>

definition randomInt :: "int \<Rightarrow> int \<Rightarrow> 'a world \<Rightarrow> int \<times> 'a world" where
  "randomInt minv maxv w =
     (let (r, w1) = Math_random w
      in (\<lfloor>r * of_int (maxv - minv + 1)\<rfloor> + minv, w1))"

text \<open>
  \<open>randomChoice(array)\<close> is \<open>array[Math.floor(Math.random() * array.length)]\<close>. The function has
  no \<open>throw\<close>: every path returns, so the outcome is always on the right of the sum; the left
  side is the message of a raised error. The value is \<open>None\<close> where the read yields
  \<open>undefined\<close>.
\<close>

definition randomChoice :: "'b list \<Rightarrow> 'a world \<Rightarrow> (string + 'b option) \<times> 'a world" where
  "randomChoice array w =
     (let (r, w1) = Math_random w
      in (Inr (js_get (map Some array) \<lfloor>r * of_nat (length array)\<rfloor>), w1))"

text \<open>
  Rounding of a real to a double: to the nearest number with a significand of 53 bits,
  a tie going to the even significand. Below \<open>2 powi (- 1022)\<close> the spacing stays that of
  the smallest normal numbers (the subnormal range). There is no overflow to infinity:
  the exponent is not bounded above.
\<close>

definition round_even :: "real \<Rightarrow> int" where
  "round_even y =
     (let f = \<lfloor>y\<rfloor>
      in if y - of_int f < 1/2 then f
         else if 1/2 < y - of_int f then f + 1
         else if even f then f else f + 1)"

definition to_double :: "real \<Rightarrow> real" where
  "to_double x =
     (if x = 0 then 0
      else let e = max \<lfloor>log 2 \<bar>x\<bar>\<rfloor> (- 1022) - 52
           in of_int (round_even (x / 2 powi e)) * 2 powi e)"

text \<open>
  \<open>generateWatchTime(videoDuration, minWatchPercent, maxWatchPercent)\<close>; the source's
  defaults for the two percentages are 0.3 and 0.9. Per its documentation the duration
  is in seconds and the result in milliseconds. The arguments are doubles; the difference,
  the two products and the sum are each rounded, in the order in which JavaScript
  evaluates them, and \<open>Math.floor\<close> is exact.
\<close>

definition generateWatchTime :: "real \<Rightarrow> real \<Rightarrow> real \<Rightarrow> 'a world \<Rightarrow> int \<times> 'a world" where
  "generateWatchTime videoDuration minWatchPercent maxWatchPercent w =
     (let (r, w1) = Math_random w;
          watchPercent =
            to_double (to_double (r * to_double (maxWatchPercent - minWatchPercent))
                       + minWatchPercent)
      in (\<lfloor>to_double (to_double (videoDuration * 1000) * watchPercent)\<rfloor>, w1))"

text \<open>
  \<open>shuffleArray(array)\<close>: copy the array, then for \<open>i\<close> from the last index down to 1 swap
  the copy's elements \<open>i\<close> and \<open>j = Math.floor(Math.random() * (i + 1))\<close>. The destructuring
  assignment reads both elements before it writes either; \<open>shuffle_step\<close> is the body of the
  loop.
\<close>

definition shuffle_step :: "ref \<Rightarrow> int \<Rightarrow> 'a world \<Rightarrow> 'a world" where
  "shuffle_step shuffled i w =
     (let (r, w1) = Math_random w;
          j = \<lfloor>r * of_int (i + 1)\<rfloor>;
          xs = arrays w1 shuffled;
          vj = js_get xs j;
          vi = js_get xs i;
          xs1 = js_set xs i vj;
          xs2 = js_set xs1 j vi
      in w1\<lparr>arrays := (arrays w1)(shuffled := xs2)\<rparr>)"

function shuffle_loop :: "ref \<Rightarrow> int \<Rightarrow> 'a world \<Rightarrow> 'a world" where
  "shuffle_loop shuffled i w =
     (if i > 0 then shuffle_loop shuffled (i - 1) (shuffle_step shuffled i w) else w)"
  by pat_completeness auto
termination
  by (relation "measure (\<lambda>(shuffled, i, w). nat i)") auto

definition shuffleArray :: "ref \<Rightarrow> 'a world \<Rightarrow> ref \<times> 'a world" where
  "shuffleArray array w =
     (let (shuffled, w1) = spread array w
      in (shuffled, shuffle_loop shuffled (int (length (arrays w1 shuffled)) - 1) w1))"

section \<open>utils/accountManager.js\<close>

text \<open>
  An account as the configuration file gives it. A field that is missing is \<open>None\<close>; the
  optional \<open>cookies\<close> object is a list of name--value pairs in the file's order.
\<close>

record account =
  username :: "string option"
  sessionId :: "string option"
  msToken :: "string option"
  userAgent :: "string option"
  cookies :: "(string \<times> string) list option"

text \<open>
  JavaScript truthiness of a string-valued field: a missing field and the empty string are
  falsy, every other string is truthy.
\<close>

definition truthy :: "string option \<Rightarrow> bool" where
  "truthy v = (case v of None \<Rightarrow> False | Some s \<Rightarrow> s \<noteq> [])"

text \<open>\<open>account[field]\<close> for the string-valued fields.\<close>

definition get_field :: "account \<Rightarrow> string \<Rightarrow> string option" where
  "get_field acc field =
     (if field = ''username'' then username acc
      else if field = ''sessionId'' then sessionId acc
      else if field = ''msToken'' then msToken acc
      else if field = ''userAgent'' then userAgent acc
      else None)"

text \<open>
  \<open>validateAccount(account)\<close>: the loop over \<open>requiredFields\<close> returns false at the first
  falsy field and true when it runs through. (The warning it prints is not modelled.)
\<close>

definition requiredFields :: "string list" where
  "requiredFields = [''username'', ''sessionId'', ''userAgent'']"

fun validate_fields :: "account \<Rightarrow> string list \<Rightarrow> bool" where
  "validate_fields acc [] = True"
| "validate_fields acc (field # rest) =
     (if \<not> truthy (get_field acc field) then False else validate_fields acc rest)"

definition validateAccount :: "account \<Rightarrow> bool" where
  "validateAccount acc = validate_fields acc requiredFields"

text \<open>
  The manager object: its stored account list. \<open>Array.prototype.filter\<close> walks the array in
  index order and appends every element that passes to a new array.
\<close>

record accountManager =
  configPath :: string
  accounts :: "account list"

fun filter_loop :: "('a \<Rightarrow> bool) \<Rightarrow> 'a list \<Rightarrow> 'a list \<Rightarrow> 'a list" where
  "filter_loop p [] kept = kept"
| "filter_loop p (x # xs) kept = filter_loop p xs (if p x then kept @ [x] else kept)"

text \<open>\<open>getValidAccounts()\<close> returns the filtered list; the manager is returned with it.\<close>

definition getValidAccounts :: "accountManager \<Rightarrow> account list \<times> accountManager" where
  "getValidAccounts this = (filter_loop validateAccount (accounts this) [], this)"

text \<open>
  The client's constructor reads the session id as
  \<open>account.sessionId || account.cookies?.sessionid\<close>.
\<close>

definition cookie :: "account \<Rightarrow> string \<Rightarrow> string option" where
  "cookie acc name = (case cookies acc of None \<Rightarrow> None | Some kvs \<Rightarrow> map_of kvs name)"

definition client_sessionId :: "account \<Rightarrow> string option" where
  "client_sessionId acc =
     (if truthy (sessionId acc) then sessionId acc else cookie acc ''sessionid'')"

text \<open>
  The validity rule in the words of the specification, for comparison with
  \<open>validateAccount\<close>: \<open>username\<close>, \<open>sessionId\<close> (or the equivalent \<open>sessionid\<close> cookie entry) and
  \<open>userAgent\<close> are all present and non-empty.
\<close>

definition spec_validate :: "account \<Rightarrow> bool" where
  "spec_validate acc =
     (truthy (username acc)
      \<and> (truthy (sessionId acc) \<or> truthy (cookie acc ''sessionid''))
      \<and> truthy (userAgent acc))"

section \<open>modules/interactionModule.js\<close>

text \<open>
  A client wraps one account. What its \<open>postComment\<close> and \<open>likeComment\<close> calls do is the
  transport's business and a parameter here: each call either returns a response or raises
  an error, of which the message is kept (\<open>Inl\<close>).
\<close>

record 'r client =
  account :: account
  client_postComment :: "string \<Rightarrow> string option \<Rightarrow> string + 'r"
  client_likeComment :: "string \<Rightarrow> int \<Rightarrow> string + 'r"

text \<open>
  The two configuration sections. \<open>comments\<close> refers to the configured array of comments;
  it is \<open>None\<close> when the section has no such key.
\<close>

record commentingConfig =
  videoId :: "string option"
  videoUrl :: "string option"
  comments :: "ref option"
  randomizeOrder :: bool
  delayBetweenCommentsMin :: "int option"
  delayBetweenCommentsMax :: "int option"

record likingConfig =
  commentId :: "string option"
  delayBetweenLikesMin :: "int option"
  delayBetweenLikesMax :: "int option"

text \<open>
  What a mass operation itself raises: an \<open>Error\<close> made with a message, or the engine's
  \<open>TypeError\<close> for spreading a value that is not iterable.
\<close>

datatype thrown = Error string | TypeError

text \<open>
  One entry of the returned list: \<open>{account, success, comment, result}\<close> on success (without
  \<open>comment\<close> for a like) and \<open>{account, success, error}\<close> on failure. A key that the object
  does not have is \<open>None\<close>.
\<close>

record 'r result =
  account :: "string option"
  success :: bool
  comment :: "string option"
  result :: "'r option"
  error :: "string option"

text \<open>\<open>x || d\<close> for an optional number: a missing value and 0 are falsy.\<close>

definition or_default :: "int option \<Rightarrow> int \<Rightarrow> int" where
  "or_default x d = (case x of None \<Rightarrow> d | Some v \<Rightarrow> if v = 0 then d else v)"

text \<open>
  \<open>extractVideoId(url)\<close>: the first match of \<open>/\/video\/(\d+)/\<close>, that is the leftmost
  \<open>/video/\<close> followed by a digit, with the longest run of digits. A missing url makes
  \<open>url.match\<close> raise, which the function catches, returning null.
\<close>

definition is_digit :: "char \<Rightarrow> bool" where
  "is_digit c = (c \<in> set ''0123456789'')"

fun match_video :: "string \<Rightarrow> string option" where
  "match_video [] = None"
| "match_video (c # cs) =
     (if prefix ''/video/'' (c # cs) \<and> takeWhile is_digit (drop 7 (c # cs)) \<noteq> []
      then Some (takeWhile is_digit (drop 7 (c # cs)))
      else match_video cs)"

definition extractVideoId :: "string option \<Rightarrow> string option" where
  "extractVideoId url = (case url of None \<Rightarrow> None | Some u \<Rightarrow> match_video u)"

text \<open>
  The instance methods \<open>postComment\<close> and \<open>likeComment\<close> call the client and re-raise what
  it raises.
\<close>

definition postComment :: "'r client \<Rightarrow> string \<Rightarrow> string option \<Rightarrow> string + 'r" where
  "postComment client vid commentText =
     (case client_postComment client vid commentText of
        Inr res \<Rightarrow> Inr res
      | Inl message \<Rightarrow> Inl message)"

definition likeComment :: "'r client \<Rightarrow> string \<Rightarrow> string + 'r" where
  "likeComment client cid =
     (case client_likeComment client cid 1 of
        Inr res \<Rightarrow> Inr res
      | Inl message \<Rightarrow> Inl message)"

text \<open>
  \<open>for (let i = 0; i < n; i++) { body }\<close> over a state: the loop of both mass operations,
  started at \<open>i = 0\<close>.
\<close>

function for_loop :: "nat \<Rightarrow> (nat \<Rightarrow> 's \<Rightarrow> 's) \<Rightarrow> nat \<Rightarrow> 's \<Rightarrow> 's" where
  "for_loop n body i st = (if i < n then for_loop n body (Suc i) (body i st) else st)"
  by pat_completeness auto
termination
  by (relation "measure (\<lambda>(n, body, i, st). n - i)") auto

text \<open>
  \<open>comments[i % comments.length]\<close>: for an empty array the index is NaN and the read yields
  \<open>undefined\<close>.
\<close>

definition commentAt :: "string option list \<Rightarrow> nat \<Rightarrow> string option" where
  "commentAt cs i = (if length cs = 0 then None else js_get cs (int i mod int (length cs)))"

text \<open>
  The body of the loop of \<open>massComment\<close> for the session at index \<open>i\<close>: the \<open>try\<close> block
  picks the comment, posts it, appends the success entry and, unless \<open>i\<close> is the last index,
  waits; the \<open>catch\<close> block appends the failure entry. The state is the \<open>results\<close> array and
  the world.
\<close>

definition massComment_session ::
  "'r client list \<Rightarrow> commentingConfig \<Rightarrow> string \<Rightarrow> ref \<Rightarrow> nat
    \<Rightarrow> 'r result list \<times> string world \<Rightarrow> 'r result list \<times> string world" where
  "massComment_session clients config vid cref i st =
     (let (results, w) = st;
          client = clients ! i;
          commentText = commentAt (arrays w cref) i;
          w1 = w\<lparr>trace := trace w @ [PostComment i vid commentText]\<rparr>
      in case postComment client vid commentText of
           Inr res \<Rightarrow>
             (results @ [\<lparr>account = username (client.account client), success = True,
                          comment = commentText, result = Some res, error = None\<rparr>],
              if int i < int (length clients) - 1
              then randomDelay (or_default (delayBetweenCommentsMin config) 5000)
                               (or_default (delayBetweenCommentsMax config) 15000) w1
              else w1)
         | Inl message \<Rightarrow>
             (results @ [\<lparr>account = username (client.account client), success = False,
                          comment = None, result = None, error = Some message\<rparr>],
              w1))"

text \<open>
  The start of \<open>massComment\<close>: the target is \<open>config.videoId || extractVideoId(config.videoUrl)\<close>,
  and a falsy target raises.
\<close>

definition resolveVideoId :: "commentingConfig \<Rightarrow> string option" where
  "resolveVideoId config =
     (let v = (if truthy (videoId config) then videoId config
               else extractVideoId (videoUrl config))
      in if \<not> truthy v then None else v)"

text \<open>
  Then \<open>let comments = [...config.comments]\<close>, outside any \<open>try\<close>. The spread needs an
  array: \<open>commentsArray\<close> is the configured array when the key is there and names an array
  that exists, and the spread raises a \<open>TypeError\<close> otherwise. When \<open>randomizeOrder\<close> is set,
  \<open>comments = shuffleArray(comments)\<close> follows; the outcome is the array the loop reads.
\<close>

definition commentsArray :: "commentingConfig \<Rightarrow> 'a world \<Rightarrow> ref option" where
  "commentsArray config w =
     (case comments config of
        None \<Rightarrow> None
      | Some carr \<Rightarrow> if carr < next_ref w then Some carr else None)"

definition prepareComments :: "ref \<Rightarrow> commentingConfig \<Rightarrow> 'a world \<Rightarrow> ref \<times> 'a world" where
  "prepareComments carr config w =
     (let (cref, w1) = spread carr w
      in if randomizeOrder config then shuffleArray cref w1 else (cref, w1))"

definition massComment ::
  "'r client list \<Rightarrow> commentingConfig \<Rightarrow> string world
    \<Rightarrow> (thrown + 'r result list) \<times> string world" where
  "massComment clients config w =
     (case resolveVideoId config of
        None \<Rightarrow> (Inl (Error ''No valid video ID provided''), w)
      | Some vid \<Rightarrow>
          (case commentsArray config w of
             None \<Rightarrow> (Inl TypeError, w)
           | Some carr \<Rightarrow>
               let (cref, w2) = prepareComments carr config w;
                   (results, w3) = for_loop (length clients)
                                     (massComment_session clients config vid cref) 0 ([], w2)
               in (Inr results, w3)))"

text \<open>\<open>massLikeComment\<close>, built the same way around \<open>likeComment\<close>.\<close>

definition massLikeComment_session ::
  "'r client list \<Rightarrow> likingConfig \<Rightarrow> string \<Rightarrow> nat
    \<Rightarrow> 'r result list \<times> 'a world \<Rightarrow> 'r result list \<times> 'a world" where
  "massLikeComment_session clients config cid i st =
     (let (results, w) = st;
          client = clients ! i;
          w1 = w\<lparr>trace := trace w @ [LikeComment i cid 1]\<rparr>
      in case likeComment client cid of
           Inr res \<Rightarrow>
             (results @ [\<lparr>account = username (client.account client), success = True,
                          comment = None, result = Some res, error = None\<rparr>],
              if int i < int (length clients) - 1
              then randomDelay (or_default (delayBetweenLikesMin config) 3000)
                               (or_default (delayBetweenLikesMax config) 10000) w1
              else w1)
         | Inl message \<Rightarrow>
             (results @ [\<lparr>account = username (client.account client), success = False,
                          comment = None, result = None, error = Some message\<rparr>],
              w1))"

text \<open>\<open>const commentId = config.commentId\<close>; a falsy id raises.\<close>

definition resolveCommentId :: "likingConfig \<Rightarrow> string option" where
  "resolveCommentId config = (if \<not> truthy (commentId config) then None else commentId config)"

definition massLikeComment ::
  "'r client list \<Rightarrow> likingConfig \<Rightarrow> 'a world \<Rightarrow> (thrown + 'r result list) \<times> 'a world" where
  "massLikeComment clients config w =
     (case resolveCommentId config of
        None \<Rightarrow> (Inl (Error ''No comment ID provided''), w)
      | Some cid \<Rightarrow>
          let (results, w1) = for_loop (length clients)
                                (massLikeComment_session clients config cid) 0 ([], w)
          in (Inr results, w1))"

text \<open>
  The unit of work of the session at index \<open>i\<close>, as the \<open>try\<close> block of each loop
  evaluates it, and the array that the loop of \<open>massComment\<close> reads: the copy of the
  configured array \<open>carr\<close>, shuffled if \<open>randomizeOrder\<close> is set.
\<close>

definition comment_work ::
  "'r client list \<Rightarrow> string \<Rightarrow> string option list \<Rightarrow> nat \<Rightarrow> string + 'r" where
  "comment_work clients vid cs i = postComment (clients ! i) vid (commentAt cs i)"

definition like_work :: "'r client list \<Rightarrow> string \<Rightarrow> nat \<Rightarrow> string + 'r" where
  "like_work clients cid i = likeComment (clients ! i) cid"

definition workingComments :: "ref \<Rightarrow> commentingConfig \<Rightarrow> 'a world \<Rightarrow> 'a option list" where
  "workingComments carr config w =
     arrays (snd (prepareComments carr config w)) (fst (prepareComments carr config w))"

section \<open>Reading a trace\<close>

text \<open>
  Who acts in an event: the index of the session whose client is called, or nobody for a
  wait. \<open>new_events w w'\<close> is what a run from \<open>w\<close> to \<open>w'\<close> added to the trace.
\<close>

fun session_of :: "event \<Rightarrow> nat option" where
  "session_of (PostComment i vid commentText) = Some i"
| "session_of (LikeComment i cid action) = Some i"
| "session_of (Delay d) = None"

definition new_events :: "'a world \<Rightarrow> 'a world \<Rightarrow> event list" where
  "new_events w w' = drop (length (trace w)) (trace w')"

section \<open>Concrete inputs\<close>

text \<open>Worlds, accounts and clients on which the functions are evaluated below.\<close>

fun constant_source :: "real \<Rightarrow> nat \<Rightarrow> real" where
  "constant_source c n = c"

fun no_arrays :: "ref \<Rightarrow> 'a option list" where
  "no_arrays r = []"

definition start_world :: "real \<Rightarrow> 'a world" where
  "start_world c =
     \<lparr>arrays = no_arrays, next_ref = 0, random = constant_source c, calls = 0, trace = []\<rparr>"

definition cookie_session_account :: account where
  "cookie_session_account =
     \<lparr>username = Some ''alice'', sessionId = None, msToken = None,
      userAgent = Some ''Mozilla/5.0'', cookies = Some [(''sessionid'', ''abc123'')]\<rparr>"

definition valid_account :: account where
  "valid_account =
     \<lparr>username = Some ''bob'', sessionId = Some ''s1'', msToken = None,
      userAgent = Some ''Mozilla/5.0'', cookies = None\<rparr>"

definition no_agent_account :: account where
  "no_agent_account =
     \<lparr>username = Some ''carol'', sessionId = Some ''s2'', msToken = None,
      userAgent = None, cookies = None\<rparr>"

definition second_account :: account where
  "second_account =
     \<lparr>username = Some ''dave'', sessionId = Some ''s3'', msToken = Some ''t3'',
      userAgent = Some ''Mozilla/5.0'', cookies = None\<rparr>"

definition comments_world :: "real \<Rightarrow> string world" where
  "comments_world c =
     \<lparr>arrays = no_arrays(0 := [Some ''nice'', Some ''great'', Some ''wow'']), next_ref = 1,
      random = constant_source c, calls = 0, trace = []\<rparr>"

fun accepting_post :: "string \<Rightarrow> string option \<Rightarrow> string + string" where
  "accepting_post vid commentText = Inr ''posted''"

fun rejecting_post :: "string \<Rightarrow> string option \<Rightarrow> string + string" where
  "rejecting_post vid commentText = Inl ''rate limited''"

fun accepting_like :: "string \<Rightarrow> int \<Rightarrow> string + string" where
  "accepting_like cid action = Inr ''liked''"

fun rejecting_like :: "string \<Rightarrow> int \<Rightarrow> string + string" where
  "rejecting_like cid action = Inl ''rate limited''"

definition good_client :: "string client" where
  "good_client =
     \<lparr>client.account = valid_account, client_postComment = accepting_post,
      client_likeComment = accepting_like\<rparr>"

definition bad_client :: "string client" where
  "bad_client =
     \<lparr>client.account = second_account, client_postComment = rejecting_post,
      client_likeComment = rejecting_like\<rparr>"

definition shuffled_config :: commentingConfig where
  "shuffled_config =
     \<lparr>videoId = None, videoUrl = Some ''https://www.tiktok.com/@user/video/1234567890'',
      comments = Some 0, randomizeOrder = True,
      delayBetweenCommentsMin = None, delayBetweenCommentsMax = None\<rparr>"

definition ordered_config :: commentingConfig where
  "ordered_config =
     \<lparr>videoId = Some ''42'', videoUrl = None, comments = Some 0, randomizeOrder = False,
      delayBetweenCommentsMin = Some 1000, delayBetweenCommentsMax = Some 3000\<rparr>"

definition no_comments_config :: commentingConfig where
  "no_comments_config =
     \<lparr>videoId = Some ''42'', videoUrl = None, comments = None, randomizeOrder = False,
      delayBetweenCommentsMin = None, delayBetweenCommentsMax = None\<rparr>"

definition like_config :: likingConfig where
  "like_config =
     \<lparr>commentId = Some ''7234567890123456789'',
      delayBetweenLikesMin = None, delayBetweenLikesMax = None\<rparr>"

declare shuffle_loop.simps [simp del] for_loop.simps [simp del]

section \<open>Random integers and delays\<close>

lemma floor_draw_bounds:
  fixes r :: real and n :: int
  assumes "0 \<le> r" "r < 1" "0 < n"
  shows "0 \<le> \<lfloor>r * of_int n\<rfloor> \<and> \<lfloor>r * of_int n\<rfloor> < n"
proof
  have "0 \<le> r * of_int n" using assms by simp
  then show "0 \<le> \<lfloor>r * of_int n\<rfloor>" by simp
  have "r * of_int n < 1 * of_int n"
    using assms by (intro mult_strict_right_mono) simp_all
  then show "\<lfloor>r * of_int n\<rfloor> < n" by (simp add: floor_less_iff)
qed

lemma Math_random_simps:
  "fst (Math_random w) = random w (calls w)"
  "snd (Math_random w) = w\<lparr>calls := Suc (calls w)\<rparr>"
  by (simp_all add: Math_random_def)

lemma unit_sourceD: "unit_source f \<Longrightarrow> 0 \<le> f n \<and> f n < 1"
  by (simp add: unit_source_def)

lemma unit_source_constant: "0 \<le> c \<Longrightarrow> c < 1 \<Longrightarrow> unit_source (constant_source c)"
  by (simp add: unit_source_def)

lemma draw_in_range:
  fixes r :: real and minv maxv :: int
  assumes "0 \<le> r" "r < 1" "minv \<le> maxv"
  shows "minv \<le> \<lfloor>r * of_int (maxv - minv + 1)\<rfloor> + minv"
    and "\<lfloor>r * of_int (maxv - minv + 1)\<rfloor> + minv \<le> maxv"
  using floor_draw_bounds[OF assms(1,2), of "maxv - minv + 1"] assms(3) by auto

text \<open>
  Claim C6. When the random source keeps its contract and \<open>min \<le> max\<close>, the integer that
  \<open>randomInt(min, max)\<close> returns and the duration that \<open>randomDelay(min, max)\<close> waits lie
  in the closed interval from \<open>min\<close> to \<open>max\<close>; with \<open>min = max\<close> both are that number.
\<close>

theorem random_in_range:
  assumes "unit_source (random w)" and "minv \<le> maxv"
  shows "minv \<le> fst (randomInt minv maxv w) \<and> fst (randomInt minv maxv w) \<le> maxv
       \<and> (\<exists>d. trace (randomDelay minv maxv w) = trace w @ [Delay d] \<and> minv \<le> d \<and> d \<le> maxv)
       \<and> fst (randomInt minv minv w) = minv
       \<and> trace (randomDelay minv minv w) = trace w @ [Delay minv]"
proof -
  let ?r = "random w (calls w)"
  have r: "0 \<le> ?r" "?r < 1" using unit_sourceD[OF assms(1)] by simp_all
  have int: "fst (randomInt minv maxv w) = \<lfloor>?r * of_int (maxv - minv + 1)\<rfloor> + minv"
    by (simp add: randomInt_def Math_random_def)
  have del: "trace (randomDelay minv maxv w)
               = trace w @ [Delay (\<lfloor>?r * of_int (maxv - minv + 1)\<rfloor> + minv)]"
    by (simp add: randomDelay_def Math_random_def)
  have deg: "\<lfloor>?r\<rfloor> = 0" using r by (simp add: floor_eq_iff)
  have "fst (randomInt minv minv w) = minv"
    using deg by (simp add: randomInt_def Math_random_def)
  moreover have "trace (randomDelay minv minv w) = trace w @ [Delay minv]"
    using deg by (simp add: randomDelay_def Math_random_def)
  ultimately show ?thesis
    using draw_in_range[OF r assms(2)] int del by simp
qed

theorem random_in_range_witness:
  "unit_source (random (start_world (1/2) :: unit world)) \<and> (5000::int) \<le> 15000
   \<and> fst (randomInt 5000 15000 (start_world (1/2) :: unit world)) = 10000
   \<and> trace (randomDelay 5000 15000 (start_world (1/2) :: unit world)) = [Delay 10000]
   \<and> fst (randomInt 7 7 (start_world (1/2) :: unit world)) = 7"
  using random_in_range[where w = "start_world (1/2) :: unit world" and minv = 5000 and maxv = 15000]
  by (simp add: start_world_def unit_source_def randomInt_def randomDelay_def Math_random_def)

section \<open>Watch time\<close>

subsection \<open>Rounding to a double\<close>

lemma round_even_of_int [simp]: "round_even (of_int n) = n"
  by (simp add: round_even_def)

lemma round_even_numeral [simp]: "round_even (numeral k) = numeral k"
  using round_even_of_int[of "numeral k"] by simp



lemma binade:
  assumes "0 < x"
  shows "\<lfloor>log 2 x\<rfloor> = e \<longleftrightarrow> 2 powi e \<le> x \<and> x < 2 powi (e + 1)"
proof -
  have "(2::real) powr real_of_int e = 2 powi e" by (simp add: powr_real_of_int')
  moreover have "(2::real) powr (real_of_int e + 1) = 2 powi (e + 1)"
    using powr_real_of_int'[of "2::real" "e + 1"] by simp
  ultimately show ?thesis using floor_log_eq_powr_iff[of x 2 e] assms by simp
qed

lemma to_double_in_binade:
  assumes "0 < x" "2 powi e \<le> x" "x < 2 powi (e + 1)" "- 1022 \<le> e"
  shows "to_double x = of_int (round_even (x / 2 powi (e - 52))) * 2 powi (e - 52)"
proof -
  have "\<lfloor>log 2 \<bar>x\<bar>\<rfloor> = e" using binade[OF assms(1), of e] assms by simp
  then show ?thesis using assms(1,4) by (simp add: to_double_def Let_def max_def)
qed











lemma to_double_0 [simp]: "to_double 0 = 0"
  by (simp add: to_double_def)




text \<open>Numbers that are doubles, as used below.\<close>

lemma to_double_values:
  "to_double (1/2) = 1/2"
  "to_double (1/4) = 1/4"
  "to_double (3/4) = 3/4"
  "to_double 1000 = 1000"
  "to_double 250 = 250"
  "to_double 10000 = 10000"
  "to_double 5000 = 5000"
  "to_double 2500 = 2500"
  "to_double 7500 = 7500"
  by (subst to_double_in_binade[where e = "-1"], simp_all add: round_even_def)
     (subst to_double_in_binade[where e = "-2"], simp_all add: round_even_def,
      subst to_double_in_binade[where e = "-1"], simp_all add: round_even_def,
      subst to_double_in_binade[where e = 9], simp_all add: round_even_def,
      subst to_double_in_binade[where e = 7], simp_all add: round_even_def,
      subst to_double_in_binade[where e = 13], simp_all add: round_even_def,
      subst to_double_in_binade[where e = 12], simp_all add: round_even_def,
      subst to_double_in_binade[where e = 11], simp_all add: round_even_def,
      subst to_double_in_binade[where e = 12], simp_all add: round_even_def)

subsection \<open>The watch time\<close>


lemma generateWatchTime_at_half:
  "fst (generateWatchTime 1 0 (1/2) (start_world (1/2) :: unit world)) = 250"
  by (simp add: generateWatchTime_def Math_random_def start_world_def to_double_values)

lemma generateWatchTime_zero_duration: "fst (generateWatchTime 0 lo hi w) = 0"
  by (simp add: generateWatchTime_def Math_random_def)

text \<open>
  Rounding matters. At 0.17 s with percentages 0.7 and 0.9 and the random value 0 the
  function returns 118, below the exact \<open>\<lfloor>0.17 * 1000 * 0.7\<rfloor> = 119\<close>; at 10 s with 0.3 and 0.9
  and the largest random value below 1 it returns 9000, the exact \<open>\<lfloor>10 * 1000 * 0.9\<rfloor>\<close>.
  So the bounds that hold are the ones computed as the function computes.
\<close>

lemma generateWatchTime_rounds_below:
  "fst (generateWatchTime (to_double (17/100)) (to_double (7/10)) (to_double (9/10))
          (start_world 0 :: unit world)) = 118"
proof -
  have d: "to_double (17/100) = 6124895493223875 / 36028797018963968"
    by (subst to_double_in_binade[where e = "-3"]) (simp_all add: round_even_def)
  have lo: "to_double (7/10) = 3152519739159347 / 4503599627370496"
    by (subst to_double_in_binade[where e = "-1"]) (simp_all add: round_even_def)
  have lo': "to_double (3152519739159347 / 4503599627370496)
               = 3152519739159347 / 4503599627370496"
    by (subst to_double_in_binade[where e = "-1"]) (simp_all add: round_even_def)
  have D: "to_double (765611936652984375 / 4503599627370496) = 170"
    by (subst to_double_in_binade[where e = 7]) (simp_all add: round_even_def)
  have P: "to_double (267964177828544495 / 2251799813685248)
             = 8373880557142015 / 70368744177664"
    by (subst to_double_in_binade[where e = 6]) (simp_all add: round_even_def)
  show ?thesis
    by (simp add: generateWatchTime_def Math_random_def start_world_def d lo lo' D P)
qed

lemma generateWatchTime_reaches_upper:
  "fst (generateWatchTime 10 (to_double (3/10)) (to_double (9/10))
          (start_world (1 - 1 / 2 ^ 52) :: unit world)) = 9000"
proof -
  have lo: "to_double (3/10) = 5404319552844595 / 18014398509481984"
    by (subst to_double_in_binade[where e = "-2"]) (simp_all add: round_even_def)
  have hi: "to_double (9/10) = 8106479329266893 / 9007199254740992"
    by (subst to_double_in_binade[where e = "-1"]) (simp_all add: round_even_def)
  have a: "to_double (10808639105689191 / 18014398509481984)
             = 1351079888211149 / 2251799813685248"
    by (subst to_double_in_binade[where e = "-1"]) (simp_all add: round_even_def)
  have b: "to_double (6084722881095500676824212648755 / 10141204801825835211973625643008)
             = 5404319552844595 / 9007199254740992"
    by (subst to_double_in_binade[where e = "-1"]) (simp_all add: round_even_def)
  have c: "to_double (16212958658533785 / 18014398509481984)
             = 2026619832316723 / 2251799813685248"
    by (subst to_double_in_binade[where e = "-1"]) (simp_all add: round_even_def)
  have P: "to_double (1266637395197951875 / 140737488355328) = 9000"
    by (subst to_double_in_binade[where e = 13]) (simp_all add: round_even_def)
  show ?thesis
    by (simp add: generateWatchTime_def Math_random_def start_world_def lo hi a b c P
        to_double_values)
qed



section \<open>Random choice\<close>

text \<open>
  Claim C4 says that \<open>choice\<close> fails with an error on the empty list. On the empty list
  \<open>randomChoice\<close> raises nothing: it returns.
\<close>

theorem randomChoice_counterexample:
  "\<not> isl (fst (randomChoice ([] :: string list) (start_world (1/2) :: unit world)))"
  by (simp add: randomChoice_def Math_random_def)

text \<open>
  Claim C4, amended. On the empty list \<open>randomChoice\<close> returns \<open>undefined\<close> and raises no
  error; on every non-empty list it returns an element of the list.
\<close>

theorem randomChoice_result:
  assumes "unit_source (random w)"
  shows "fst (randomChoice [] w) = Inr None
       \<and> (xs \<noteq> [] \<longrightarrow> (\<exists>x \<in> set xs. fst (randomChoice xs w) = Inr (Some x)))"
proof -
  let ?r = "random w (calls w)"
  have r: "0 \<le> ?r" "?r < 1" using unit_sourceD[OF assms(1)] by simp_all
  have empty: "fst (randomChoice [] w) = Inr None"
    by (simp add: randomChoice_def Math_random_def js_get_def)
  have "\<exists>x \<in> set xs. fst (randomChoice xs w) = Inr (Some x)" if ne: "xs \<noteq> []"
  proof -
    let ?k = "\<lfloor>?r * of_nat (length xs)\<rfloor>"
    have "0 < int (length xs)" using ne by simp
    from floor_draw_bounds[OF r this] have k: "0 \<le> ?k" "?k < int (length xs)" by simp_all
    then have n: "nat ?k < length xs" by linarith
    then have "xs ! nat ?k \<in> set xs" by simp
    moreover have "fst (randomChoice xs w) = Inr (Some (xs ! nat ?k))"
      using k n by (simp add: randomChoice_def Math_random_def js_get_def)
    ultimately show ?thesis by blast
  qed
  with empty show ?thesis by blast
qed

theorem randomChoice_result_witness:
  "unit_source (random (start_world (1/2) :: unit world)) \<and> [''a'', ''b'', ''c''] \<noteq> []
   \<and> fst (randomChoice [''a'', ''b'', ''c''] (start_world (1/2) :: unit world)) = Inr (Some ''b'')
   \<and> fst (randomChoice ([] :: string list) (start_world (1/2) :: unit world)) = Inr None"
  using randomChoice_result[where w = "start_world (1/2) :: unit world"
      and xs = "[''a'', ''b'', ''c'']"]
  by (simp add: start_world_def unit_source_def randomChoice_def Math_random_def js_get_def)

section \<open>Valid accounts\<close>

lemma validateAccount_iff:
  "validateAccount acc \<longleftrightarrow> truthy (username acc) \<and> truthy (sessionId acc) \<and> truthy (userAgent acc)"
  by (simp add: validateAccount_def requiredFields_def get_field_def)

lemma filter_loop_eq: "filter_loop p xs kept = kept @ filter p xs"
  by (induction xs arbitrary: kept) simp_all

lemma getValidAccounts_eq: "fst (getValidAccounts this) = filter validateAccount (accounts this)"
  by (simp add: getValidAccounts_def filter_loop_eq)

text \<open>
  Claim C5 says that an account is valid when its session id is given by the equivalent
  cookie entry instead of \<open>sessionId\<close>. \<open>validateAccount\<close> rejects such an account.
\<close>

theorem validateAccount_counterexample:
  "\<not> (validateAccount cookie_session_account \<longleftrightarrow> spec_validate cookie_session_account)"
  by (simp add: validateAccount_def requiredFields_def get_field_def spec_validate_def
      cookie_def truthy_def cookie_session_account_def)

text \<open>
  Claim C5, amended. \<open>validateAccount\<close> holds exactly when the fields \<open>username\<close>,
  \<open>sessionId\<close> and \<open>userAgent\<close> themselves are present and non-empty; a \<open>sessionid\<close> cookie
  does not stand in for \<open>sessionId\<close>. An account without \<open>userAgent\<close> never appears among the
  valid accounts, and taking it out of the stored list does not change which other accounts
  appear.
\<close>

theorem validateAccount_required_fields:
  "(validateAccount acc \<longleftrightarrow>
      truthy (username acc) \<and> truthy (sessionId acc) \<and> truthy (userAgent acc))
   \<and> (\<not> truthy (userAgent acc) \<longrightarrow> acc \<notin> set (fst (getValidAccounts this)))
   \<and> (\<not> truthy (userAgent acc) \<longrightarrow>
        fst (getValidAccounts (this\<lparr>accounts := before @ acc # after\<rparr>))
          = fst (getValidAccounts (this\<lparr>accounts := before @ after\<rparr>)))"
  by (simp add: getValidAccounts_eq validateAccount_iff)

theorem validateAccount_required_fields_witness:
  "\<not> truthy (userAgent no_agent_account)
   \<and> \<not> validateAccount no_agent_account
   \<and> no_agent_account \<notin> set (fst (getValidAccounts \<lparr>configPath = ''./config.json'', accounts = [valid_account, no_agent_account]\<rparr>))
   \<and> fst (getValidAccounts \<lparr>configPath = ''./config.json'', accounts = [valid_account, no_agent_account]\<rparr>)
       = fst (getValidAccounts \<lparr>configPath = ''./config.json'', accounts = [valid_account]\<rparr>)"
proof -
  let ?m = "\<lparr>configPath = ''./config.json'', accounts = [valid_account, no_agent_account]\<rparr>"
  have h: "\<not> truthy (userAgent no_agent_account)"
    by (simp add: truthy_def no_agent_account_def)
  note t = validateAccount_required_fields[where acc = no_agent_account and this = ?m
      and before = "[valid_account]" and after = "[]"]
  from t h have a: "\<not> validateAccount no_agent_account" by blast
  from t h have b: "no_agent_account \<notin> set (fst (getValidAccounts ?m))" by blast
  from t h have c: "fst (getValidAccounts ?m)
      = fst (getValidAccounts \<lparr>configPath = ''./config.json'', accounts = [valid_account]\<rparr>)"
    by simp
  show ?thesis using h a b c by blast
qed

text \<open>
  Claim C10. \<open>getValidAccounts\<close> returns exactly the stored accounts that satisfy
  \<open>validateAccount\<close>, as a subsequence of the stored list in its order, and leaves the
  manager with its stored list unchanged.
\<close>

theorem getValidAccounts_filter:
  "fst (getValidAccounts this) = filter validateAccount (accounts this)
   \<and> subseq (fst (getValidAccounts this)) (accounts this)
   \<and> snd (getValidAccounts this) = this"
  by (simp add: getValidAccounts_eq) (simp add: getValidAccounts_def)

theorem getValidAccounts_filter_witness:
  "fst (getValidAccounts \<lparr>configPath = ''./config.json'', accounts = [no_agent_account, valid_account, cookie_session_account, valid_account]\<rparr>)
     = [valid_account, valid_account]"
  using getValidAccounts_filter[where this = "\<lparr>configPath = ''./config.json'',
      accounts = [no_agent_account, valid_account, cookie_session_account, valid_account]\<rparr>"]
  by (simp add: validateAccount_iff truthy_def no_agent_account_def valid_account_def cookie_session_account_def)

section \<open>Shuffling\<close>

lemma js_swap:
  assumes "0 \<le> i" "i < int (length xs)" "0 \<le> j" "j < int (length xs)"
  shows "js_set (js_set xs i (js_get xs j)) j (js_get xs i)
           = xs[nat i := xs ! nat j, nat j := xs ! nat i]"
  using assms by (simp add: js_set_def js_get_def)

lemma mset_js_swap:
  assumes "0 \<le> i" "i < int (length xs)" "0 \<le> j" "j < int (length xs)"
  shows "mset (js_set (js_set xs i (js_get xs j)) j (js_get xs i)) = mset xs"
proof -
  have "nat i < length xs" "nat j < length xs" using assms by linarith+
  then have "mset (xs[nat i := xs ! nat j, nat j := xs ! nat i]) = mset xs"
    by (simp add: mset_swap)
  then show ?thesis using js_swap[OF assms] by simp
qed

lemma shuffle_step_frame:
  "next_ref (shuffle_step s i w) = next_ref w"
  "random (shuffle_step s i w) = random w"
  "trace (shuffle_step s i w) = trace w"
  "calls (shuffle_step s i w) = Suc (calls w)"
  "r \<noteq> s \<Longrightarrow> arrays (shuffle_step s i w) r = arrays w r"
  by (simp_all add: shuffle_step_def Math_random_def Let_def)

lemma shuffle_step_mset:
  assumes "unit_source (random w)" "0 < i" "i < int (length (arrays w s))"
  shows "mset (arrays (shuffle_step s i w) s) = mset (arrays w s)"
proof -
  let ?r = "random w (calls w)"
  let ?j = "\<lfloor>?r * of_int (i + 1)\<rfloor>"
  have r: "0 \<le> ?r" "?r < 1" using unit_sourceD[OF assms(1)] by simp_all
  have "0 < i + 1" using assms(2) by simp
  from floor_draw_bounds[OF r this] have j: "0 \<le> ?j" "?j < int (length (arrays w s))"
    using assms(3) by simp_all
  have "arrays (shuffle_step s i w) s
          = js_set (js_set (arrays w s) i (js_get (arrays w s) ?j)) ?j (js_get (arrays w s) i)"
    by (simp add: shuffle_step_def Math_random_def Let_def)
  then show ?thesis using mset_js_swap[of i "arrays w s" ?j] assms(2,3) j by simp
qed

lemma shuffle_loop_frame:
  "next_ref (shuffle_loop s i w) = next_ref w
   \<and> random (shuffle_loop s i w) = random w
   \<and> trace (shuffle_loop s i w) = trace w
   \<and> (\<forall>r. r \<noteq> s \<longrightarrow> arrays (shuffle_loop s i w) r = arrays w r)"
proof (induction "nat i" arbitrary: i w)
  case 0
  then show ?case by (simp add: shuffle_loop.simps)
next
  case (Suc n)
  then have "0 < i" "n = nat (i - 1)" by simp_all
  with Suc.hyps(1)[of "i - 1" "shuffle_step s i w"] show ?case
    by (subst (1 2 3 4) shuffle_loop.simps) (simp add: shuffle_step_frame)
qed

lemma shuffle_loop_mset:
  assumes "unit_source (random w)" "i < int (length (arrays w s))"
  shows "mset (arrays (shuffle_loop s i w) s) = mset (arrays w s)"
  using assms
proof (induction "nat i" arbitrary: i w)
  case 0
  then show ?case by (simp add: shuffle_loop.simps)
next
  case (Suc n)
  then have i: "0 < i" "n = nat (i - 1)" by simp_all
  have m: "mset (arrays (shuffle_step s i w) s) = mset (arrays w s)"
    using shuffle_step_mset[OF Suc.prems(1) i(1) Suc.prems(2)] .
  then have "length (arrays (shuffle_step s i w) s) = length (arrays w s)"
    by (rule mset_eq_length)
  then have "i - 1 < int (length (arrays (shuffle_step s i w) s))"
    using Suc.prems(2) by simp
  from Suc.hyps(1)[OF i(2) _ this] Suc.prems(1)
  have "mset (arrays (shuffle_loop s (i - 1) (shuffle_step s i w)) s)
          = mset (arrays (shuffle_step s i w) s)"
    by (simp add: shuffle_step_frame)
  with m i(1) show ?case by (subst shuffle_loop.simps) simp
qed

lemma spread_frame:
  "fst (spread a w) = next_ref w"
  "next_ref (snd (spread a w)) = Suc (next_ref w)"
  "random (snd (spread a w)) = random w"
  "trace (snd (spread a w)) = trace w"
  "calls (snd (spread a w)) = calls w"
  "arrays (snd (spread a w)) (next_ref w) = arrays w a"
  "r \<noteq> next_ref w \<Longrightarrow> arrays (snd (spread a w)) r = arrays w r"
  by (simp_all add: spread_def)

lemma shuffleArray_unfold:
  "shuffleArray a w =
     (next_ref w, shuffle_loop (next_ref w) (int (length (arrays w a)) - 1) (snd (spread a w)))"
  by (simp add: shuffleArray_def spread_def)

lemma shuffleArray_frame:
  "fst (shuffleArray a w) = next_ref w"
  "next_ref (snd (shuffleArray a w)) = Suc (next_ref w)"
  "random (snd (shuffleArray a w)) = random w"
  "trace (snd (shuffleArray a w)) = trace w"
  "r \<noteq> next_ref w \<Longrightarrow> arrays (snd (shuffleArray a w)) r = arrays w r"
  by (simp_all add: shuffleArray_unfold shuffle_loop_frame spread_frame)

lemma shuffleArray_mset:
  assumes "unit_source (random w)"
  shows "mset (arrays (snd (shuffleArray a w)) (fst (shuffleArray a w))) = mset (arrays w a)"
proof -
  let ?w1 = "snd (spread a w)"
  have "unit_source (random ?w1)" using assms by (simp add: spread_frame)
  moreover have "int (length (arrays w a)) - 1 < int (length (arrays ?w1 (next_ref w)))"
    by (simp add: spread_frame)
  ultimately have "mset (arrays (shuffle_loop (next_ref w) (int (length (arrays w a)) - 1) ?w1)
                           (next_ref w)) = mset (arrays ?w1 (next_ref w))"
    by (rule shuffle_loop_mset)
  then show ?thesis by (simp add: shuffleArray_unfold spread_frame)
qed

text \<open>
  Claim C7. For every array, the empty and the one-element array included,
  \<open>shuffleArray\<close> returns a permutation of it (the same elements with the same
  multiplicities, hence the same length); the array passed in is unchanged after the call
  and the result is a new array. The random source is assumed to keep its contract, and
  the array to exist when the call is made.
\<close>

theorem shuffleArray_permutation:
  assumes "unit_source (random w)" and "array < next_ref w"
  shows "mset (arrays (snd (shuffleArray array w)) (fst (shuffleArray array w)))
           = mset (arrays w array)
       \<and> length (arrays (snd (shuffleArray array w)) (fst (shuffleArray array w)))
           = length (arrays w array)
       \<and> arrays (snd (shuffleArray array w)) array = arrays w array
       \<and> fst (shuffleArray array w) \<noteq> array"
proof -
  note m = shuffleArray_mset[OF assms(1), of array]
  have "array \<noteq> next_ref w" using assms(2) by simp
  then show ?thesis
    using m mset_eq_length[OF m] by (simp add: shuffleArray_frame)
qed

theorem shuffleArray_permutation_witness:
  "unit_source (random (comments_world (1/2))) \<and> 0 < next_ref (comments_world (1/2))
   \<and> arrays (snd (shuffleArray 0 (comments_world (1/2)))) (fst (shuffleArray 0 (comments_world (1/2))))
       = [Some ''nice'', Some ''wow'', Some ''great'']
   \<and> arrays (snd (shuffleArray 0 (comments_world (1/2)))) 0
       = [Some ''nice'', Some ''great'', Some ''wow'']
   \<and> fst (shuffleArray 0 (comments_world (1/2))) = 1"
  using shuffleArray_permutation[where w = "comments_world (1/2)" and array = 0]
  by (simp add: comments_world_def unit_source_def shuffleArray_def spread_def
      shuffle_loop.simps shuffle_step_def Math_random_def js_get_def js_set_def)

section \<open>The session loop\<close>

lemma for_loop_append:
  assumes step: "\<And>k st. i \<le> k \<Longrightarrow> k < n \<Longrightarrow> Inv st \<Longrightarrow> Inv (body k st) \<and> f (body k st) = f st @ g k"
      and inv: "Inv st"
  shows "Inv (for_loop n body i st) \<and> f (for_loop n body i st) = f st @ concat (map g [i..<n])"
  using inv step
proof (induction "n - i" arbitrary: i st)
  case 0
  then show ?case by (simp add: for_loop.simps)
next
  case (Suc d)
  then have lt: "i < n" and d: "d = n - Suc i" by simp_all
  from Suc.prems(2)[OF order_refl lt Suc.prems(1)]
  have b: "Inv (body i st)" "f (body i st) = f st @ g i" by simp_all
  have "Inv (for_loop n body (Suc i) (body i st))
      \<and> f (for_loop n body (Suc i) (body i st)) = f (body i st) @ concat (map g [Suc i..<n])"
    using Suc.hyps(1)[OF d b(1)] Suc.prems(2) by simp
  then show ?case
    using lt b(2) by (subst (1 2) for_loop.simps) (simp add: upt_conv_Cons)
qed

lemma randomDelay_frame:
  "arrays (randomDelay a b w) = arrays w"
  "next_ref (randomDelay a b w) = next_ref w"
  "random (randomDelay a b w) = random w"
  "\<exists>d. trace (randomDelay a b w) = trace w @ [Delay d]"
  by (simp_all add: randomDelay_def Math_random_def Let_def)

subsection \<open>One session of massComment\<close>

lemma massComment_session_frame:
  "arrays (snd (massComment_session clients config vid cref k st)) = arrays (snd st)"
  "next_ref (snd (massComment_session clients config vid cref k st)) = next_ref (snd st)"
  "random (snd (massComment_session clients config vid cref k st)) = random (snd st)"
  by (cases st; simp add: massComment_session_def randomDelay_frame Let_def split: sum.splits)+

lemma massComment_session_results:
  "fst (massComment_session clients config vid cref k st) =
     fst st @ [case comment_work clients vid (arrays (snd st) cref) k of
                 Inr res \<Rightarrow> \<lparr>account = username (client.account (clients ! k)), success = True,
                             comment = commentAt (arrays (snd st) cref) k, result = Some res,
                             error = None\<rparr>
               | Inl message \<Rightarrow> \<lparr>account = username (client.account (clients ! k)),
                                  success = False, comment = None, result = None,
                                  error = Some message\<rparr>]"
  by (cases st) (simp add: massComment_session_def comment_work_def Let_def split: sum.splits)

lemma massComment_session_trace:
  "\<exists>T. trace (snd (massComment_session clients config vid cref k st)) = trace (snd st) @ T
     \<and> map session_of T =
         Some k # (if \<not> isl (comment_work clients vid (arrays (snd st) cref) k)
                      \<and> Suc k < length clients then [None] else [])
     \<and> filter (\<lambda>e. session_of e \<noteq> None) T
         = [PostComment k vid (commentAt (arrays (snd st) cref) k)]"
proof (cases st)
  case (Pair rs w)
  show ?thesis
  proof (cases "comment_work clients vid (arrays w cref) k")
    case (Inl m)
    then show ?thesis using Pair
      by (simp add: massComment_session_def comment_work_def Let_def)
  next
    case (Inr res)
    show ?thesis
    proof (cases "Suc k < length clients")
      case True
      obtain d where d: "trace (randomDelay (or_default (delayBetweenCommentsMin config) 5000)
              (or_default (delayBetweenCommentsMax config) 15000)
              (w\<lparr>trace := trace w @ [PostComment k vid (commentAt (arrays w cref) k)]\<rparr>))
            = trace w @ [PostComment k vid (commentAt (arrays w cref) k)] @ [Delay d]"
        using randomDelay_frame(4)[of _ _ "w\<lparr>trace := trace w @ [PostComment k vid (commentAt (arrays w cref) k)]\<rparr>"]
        by auto
      have lt: "int k < int (length clients) - 1" using True by simp
      show ?thesis using Pair Inr True d lt
        by (simp add: massComment_session_def comment_work_def Let_def)
    next
      case False
      then have "\<not> int k < int (length clients) - 1" by simp
      then show ?thesis using Pair Inr False
        by (simp add: massComment_session_def comment_work_def Let_def)
    qed
  qed
qed

subsection \<open>One session of massLikeComment\<close>

lemma massLikeComment_session_frame:
  "arrays (snd (massLikeComment_session clients config cid k st)) = arrays (snd st)"
  "next_ref (snd (massLikeComment_session clients config cid k st)) = next_ref (snd st)"
  "random (snd (massLikeComment_session clients config cid k st)) = random (snd st)"
  by (cases st; simp add: massLikeComment_session_def randomDelay_frame Let_def split: sum.splits)+

lemma massLikeComment_session_results:
  "fst (massLikeComment_session clients config cid k st) =
     fst st @ [case like_work clients cid k of
                 Inr res \<Rightarrow> \<lparr>account = username (client.account (clients ! k)), success = True,
                             comment = None, result = Some res, error = None\<rparr>
               | Inl message \<Rightarrow> \<lparr>account = username (client.account (clients ! k)),
                                  success = False, comment = None, result = None,
                                  error = Some message\<rparr>]"
  by (cases st) (simp add: massLikeComment_session_def like_work_def Let_def split: sum.splits)

lemma massLikeComment_session_trace:
  "\<exists>T. trace (snd (massLikeComment_session clients config cid k st)) = trace (snd st) @ T
     \<and> map session_of T =
         Some k # (if \<not> isl (like_work clients cid k) \<and> Suc k < length clients
                   then [None] else [])"
proof (cases st)
  case (Pair rs w)
  show ?thesis
  proof (cases "like_work clients cid k")
    case (Inl m)
    then show ?thesis using Pair
      by (simp add: massLikeComment_session_def like_work_def Let_def)
  next
    case (Inr res)
    show ?thesis
    proof (cases "Suc k < length clients")
      case True
      obtain d where d: "trace (randomDelay (or_default (delayBetweenLikesMin config) 3000)
              (or_default (delayBetweenLikesMax config) 10000)
              (w\<lparr>trace := trace w @ [LikeComment k cid 1]\<rparr>))
            = trace w @ [LikeComment k cid 1] @ [Delay d]"
        using randomDelay_frame(4)[of _ _ "w\<lparr>trace := trace w @ [LikeComment k cid 1]\<rparr>"]
        by auto
      have lt: "int k < int (length clients) - 1" using True by simp
      show ?thesis using Pair Inr True d lt
        by (simp add: massLikeComment_session_def like_work_def Let_def)
    next
      case False
      then have "\<not> int k < int (length clients) - 1" by simp
      then show ?thesis using Pair Inr False
        by (simp add: massLikeComment_session_def like_work_def Let_def)
    qed
  qed
qed

subsection \<open>The loops\<close>

lemma for_loop_new_events:
  assumes h: "\<And>xs ys. h (xs @ ys) = h xs @ h ys"
      and step: "\<And>k st. k < n \<Longrightarrow> Inv st \<Longrightarrow>
                  Inv (body k st)
                  \<and> (\<exists>T. trace (snd (body k st)) = trace (snd st) @ T \<and> h T = g k)"
      and inv: "Inv st0"
  shows "h (new_events (snd st0) (snd (for_loop n body 0 st0))) = concat (map g [0..<n])"
proof -
  let ?n0 = "length (trace (snd st0))"
  let ?f = "\<lambda>st. h (drop ?n0 (trace (snd st)))"
  let ?Inv = "\<lambda>st. Inv st \<and> ?n0 \<le> length (trace (snd st))"
  have "h [] = h [] @ h []" using h[of "[]" "[]"] by simp
  then have h0: "h [] = []" by simp
  have "?Inv (body k st) \<and> ?f (body k st) = ?f st @ g k" if "k < n" "?Inv st" for k st
  proof -
    from step[OF that(1)] that(2) obtain T
      where T: "Inv (body k st)" "trace (snd (body k st)) = trace (snd st) @ T" "h T = g k"
      by blast
    then show ?thesis using that(2) h by simp
  qed
  then have "?Inv (for_loop n body 0 st0)
      \<and> ?f (for_loop n body 0 st0) = ?f st0 @ concat (map g [0..<n])"
    using inv by (intro for_loop_append) simp_all
  then show ?thesis by (simp add: new_events_def h0)
qed

lemma for_loop_invariant:
  assumes "\<And>k st. k < n \<Longrightarrow> Inv st \<Longrightarrow> Inv (body k st)" and "Inv st0"
  shows "Inv (for_loop n body 0 st0)"
proof -
  have "Inv (for_loop n body 0 st0)
      \<and> (\<lambda>st. []) (for_loop n body 0 st0) = (\<lambda>st. []) st0 @ concat (map (\<lambda>k. []) [0..<n])"
    using assms by (intro for_loop_append) simp_all
  then show ?thesis by simp
qed

lemma comment_loop_frame:
  "arrays (snd (for_loop n (massComment_session clients config vid cref) 0 st0)) = arrays (snd st0)
   \<and> next_ref (snd (for_loop n (massComment_session clients config vid cref) 0 st0)) = next_ref (snd st0)"
  by (rule for_loop_invariant[where Inv = "\<lambda>st. arrays (snd st) = arrays (snd st0)
        \<and> next_ref (snd st) = next_ref (snd st0)"])
     (simp_all add: massComment_session_frame)

lemma like_loop_frame:
  "arrays (snd (for_loop n (massLikeComment_session clients config cid) 0 st0)) = arrays (snd st0)
   \<and> next_ref (snd (for_loop n (massLikeComment_session clients config cid) 0 st0)) = next_ref (snd st0)"
  by (rule for_loop_invariant[where Inv = "\<lambda>st. arrays (snd st) = arrays (snd st0)
        \<and> next_ref (snd st) = next_ref (snd st0)"])
     (simp_all add: massLikeComment_session_frame)

lemma comment_loop_results:
  "fst (for_loop n (massComment_session clients config vid cref) 0 ([], w)) =
     map (\<lambda>k. case comment_work clients vid (arrays w cref) k of
                 Inr res \<Rightarrow> \<lparr>account = username (client.account (clients ! k)), success = True,
                             comment = commentAt (arrays w cref) k, result = Some res,
                             error = None\<rparr>
               | Inl message \<Rightarrow> \<lparr>account = username (client.account (clients ! k)),
                                  success = False, comment = None, result = None,
                                  error = Some message\<rparr>) [0..<n]"
  (is "fst (for_loop n ?body 0 _) = map ?entry _")
proof -
  have "arrays (snd (for_loop n ?body 0 ([], w))) = arrays w
      \<and> fst (for_loop n ?body 0 ([], w)) = fst ([], w) @ concat (map (\<lambda>k. [?entry k]) [0..<n])"
    by (rule for_loop_append[where Inv = "\<lambda>st. arrays (snd st) = arrays w"])
       (simp_all add: massComment_session_frame massComment_session_results cong: sum.case_cong)
  then show ?thesis by simp
qed

lemma like_loop_results:
  "fst (for_loop n (massLikeComment_session clients config cid) 0 ([], w)) =
     map (\<lambda>k. case like_work clients cid k of
                 Inr res \<Rightarrow> \<lparr>account = username (client.account (clients ! k)), success = True,
                             comment = None, result = Some res, error = None\<rparr>
               | Inl message \<Rightarrow> \<lparr>account = username (client.account (clients ! k)),
                                  success = False, comment = None, result = None,
                                  error = Some message\<rparr>) [0..<n]"
  (is "fst (for_loop n ?body 0 _) = map ?entry _")
proof -
  have "True
      \<and> fst (for_loop n ?body 0 ([], w)) = fst ([], w) @ concat (map (\<lambda>k. [?entry k]) [0..<n])"
    by (rule for_loop_append[where Inv = "\<lambda>st. True"])
       (simp_all add: massLikeComment_session_results)
  then show ?thesis by simp
qed

lemma comment_loop_actors:
  fixes clients :: "'r client list"
  shows "map session_of (new_events w
       (snd (for_loop (length clients) (massComment_session clients config vid cref) 0 ([], w))))
     = concat (map (\<lambda>k. Some k # (if \<not> isl (comment_work clients vid (arrays w cref) k)
                                     \<and> Suc k < length clients then [None] else []))
                [0..<length clients])"
  (is "map session_of (new_events w (snd (for_loop ?n ?body 0 _))) = concat (map ?g _)")
proof -
  have "map session_of (new_events (snd ([] :: 'r result list, w)) (snd (for_loop ?n ?body 0 ([], w))))
          = concat (map ?g [0..<?n])"
  proof (rule for_loop_new_events[where h = "map session_of" and g = ?g
        and Inv = "\<lambda>st :: 'r result list \<times> string world. arrays (snd st) = arrays w"])
    fix k and st :: "'r result list \<times> string world"
    assume "k < length clients" "arrays (snd st) = arrays w"
    then show "arrays (snd (?body k st)) = arrays w
       \<and> (\<exists>T. trace (snd (?body k st)) = trace (snd st) @ T \<and> map session_of T = ?g k)"
      using massComment_session_trace[of clients config vid cref k st]
      by (auto simp add: massComment_session_frame)
  qed simp_all
  then show ?thesis by simp
qed

lemma comment_loop_calls:
  fixes clients :: "'r client list"
  shows "filter (\<lambda>e. session_of e \<noteq> None) (new_events w
       (snd (for_loop (length clients) (massComment_session clients config vid cref) 0 ([], w))))
     = map (\<lambda>k. PostComment k vid (commentAt (arrays w cref) k)) [0..<length clients]"
  (is "filter ?P (new_events w (snd (for_loop ?n ?body 0 _))) = map ?post _")
proof -
  have "filter ?P (new_events (snd ([] :: 'r result list, w)) (snd (for_loop ?n ?body 0 ([], w))))
          = concat (map (\<lambda>k. [?post k]) [0..<?n])"
  proof (rule for_loop_new_events[where h = "filter ?P" and g = "\<lambda>k. [?post k]"
        and Inv = "\<lambda>st :: 'r result list \<times> string world. arrays (snd st) = arrays w"])
    fix k and st :: "'r result list \<times> string world"
    assume "k < length clients" "arrays (snd st) = arrays w"
    then show "arrays (snd (?body k st)) = arrays w
       \<and> (\<exists>T. trace (snd (?body k st)) = trace (snd st) @ T \<and> filter ?P T = [?post k])"
      using massComment_session_trace[of clients config vid cref k st]
      by (auto simp add: massComment_session_frame)
  qed simp_all
  then show ?thesis by simp
qed

lemma like_loop_actors:
  fixes clients :: "'r client list" and w :: "'a world"
  shows "map session_of (new_events w
       (snd (for_loop (length clients) (massLikeComment_session clients config cid) 0 ([], w))))
     = concat (map (\<lambda>k. Some k # (if \<not> isl (like_work clients cid k)
                                     \<and> Suc k < length clients then [None] else []))
                [0..<length clients])"
  (is "map session_of (new_events w (snd (for_loop ?n ?body 0 _))) = concat (map ?g _)")
proof -
  have "map session_of (new_events (snd ([] :: 'r result list, w)) (snd (for_loop ?n ?body 0 ([], w))))
          = concat (map ?g [0..<?n])"
  proof (rule for_loop_new_events[where h = "map session_of" and g = ?g
        and Inv = "\<lambda>st :: 'r result list \<times> 'a world. True"])
    fix k and st :: "'r result list \<times> 'a world"
    assume "k < length clients"
    then show "True
       \<and> (\<exists>T. trace (snd (?body k st)) = trace (snd st) @ T \<and> map session_of T = ?g k)"
      using massLikeComment_session_trace[of clients config cid k st] by simp
  qed simp_all
  then show ?thesis by simp
qed

subsection \<open>Who acts when\<close>

lemma actors_split:
  fixes ok :: "nat \<Rightarrow> bool"
  assumes "Suc i < n"
  shows "\<exists>P Q. concat (map (\<lambda>k. Some k # (if ok k \<and> Suc k < n then [None] else [])) [0..<n])
                 = P @ Some i # (if ok i then [None] else []) @ Some (Suc i) # Q
               \<and> Some i \<notin> set P \<and> Some i \<notin> set Q"
proof -
  let ?seg = "\<lambda>k. Some k # (if ok k \<and> Suc k < n then [None] else [])"
  let ?P = "concat (map ?seg [0..<i])"
  let ?Q = "(if ok (Suc i) \<and> Suc (Suc i) < n then [None] else [])
              @ concat (map ?seg [Suc (Suc i)..<n])"
  have "[0..<n] = [0..<i] @ [i..<n]"
    using assms upt_add_eq_append[of 0 i "n - i"] by simp
  also have "[i..<n] = i # Suc i # [Suc (Suc i)..<n]"
    using assms by (simp add: upt_conv_Cons)
  finally have "concat (map ?seg [0..<n])
      = ?P @ Some i # (if ok i then [None] else []) @ Some (Suc i) # ?Q"
    using assms by simp
  moreover have "Some i \<notin> set ?P" by auto
  moreover have "Some i \<notin> set ?Q" by auto
  ultimately show ?thesis by blast
qed

lemma actors_delay:
  fixes ok :: "nat \<Rightarrow> bool"
  assumes "Suc i < n"
  defines "A \<equiv> concat (map (\<lambda>k. Some k # (if ok k \<and> Suc k < n then [None] else [])) [0..<n])"
  shows "sublist [Some i, None, Some (Suc i)] A \<longleftrightarrow> ok i"
    and "sublist (Some i # (if ok i then [None] else []) @ [Some (Suc i)]) A"
proof -
  from actors_split[OF assms(1), of ok] obtain P Q
    where A: "A = P @ Some i # (if ok i then [None] else []) @ Some (Suc i) # Q"
      and P: "Some i \<notin> set P" and Q: "Some i \<notin> set Q"
    unfolding A_def by blast
  have "A = P @ (Some i # (if ok i then [None] else []) @ [Some (Suc i)]) @ Q"
    using A by simp
  then show s: "sublist (Some i # (if ok i then [None] else []) @ [Some (Suc i)]) A"
    unfolding sublist_def by blast
  show "sublist [Some i, None, Some (Suc i)] A \<longleftrightarrow> ok i"
  proof
    assume "sublist [Some i, None, Some (Suc i)] A"
    then obtain ps ss where "A = ps @ [Some i, None, Some (Suc i)] @ ss"
      unfolding sublist_def by blast
    then have eq: "P @ Some i # ((if ok i then [None] else []) @ Some (Suc i) # Q)
                    = ps @ Some i # (None # Some (Suc i) # ss)"
      using A by simp
    have "Some i \<notin> set ((if ok i then [None] else []) @ Some (Suc i) # Q)"
      using Q by simp
    from append_Cons_eq_iff[OF P this] eq
    have "(if ok i then [None] else []) @ Some (Suc i) # Q = None # Some (Suc i) # ss"
      by blast
    then show "ok i" by (cases "ok i") simp_all
  next
    assume "ok i"
    then show "sublist [Some i, None, Some (Suc i)] A" using s by simp
  qed
qed

subsection \<open>Unfolding the two entry points\<close>

lemma prepareComments_frame:
  "trace (snd (prepareComments carr config w)) = trace w"
  "random (snd (prepareComments carr config w)) = random w"
  "r < next_ref w \<Longrightarrow> arrays (snd (prepareComments carr config w)) r = arrays w r"
  by (simp_all add: prepareComments_def split_beta spread_frame shuffleArray_frame)

lemma massComment_unfold:
  assumes "resolveVideoId config = Some vid" and "commentsArray config w = Some carr"
  shows "massComment clients config w =
           (Inr (fst (for_loop (length clients)
                   (massComment_session clients config vid (fst (prepareComments carr config w)))
                   0 ([], snd (prepareComments carr config w)))),
            snd (for_loop (length clients)
                   (massComment_session clients config vid (fst (prepareComments carr config w)))
                   0 ([], snd (prepareComments carr config w))))"
  using assms by (simp add: massComment_def split_beta)

lemma massLikeComment_unfold:
  assumes "resolveCommentId config = Some cid"
  shows "massLikeComment clients config w =
           (Inr (fst (for_loop (length clients) (massLikeComment_session clients config cid)
                   0 ([], w))),
            snd (for_loop (length clients) (massLikeComment_session clients config cid)
                   0 ([], w)))"
  using assms by (simp add: massLikeComment_def split_beta)

lemma new_events_prepareComments:
  "new_events (snd (prepareComments carr config w)) w' = new_events w w'"
  by (simp add: new_events_def prepareComments_frame)

lemma massComment_actors:
  fixes clients :: "'r client list"
  assumes "resolveVideoId config = Some vid" and "commentsArray config w = Some carr"
  shows "map session_of (new_events w (snd (massComment clients config w)))
     = concat (map (\<lambda>k. Some k # (if \<not> isl (comment_work clients vid (workingComments carr config w) k)
                                     \<and> Suc k < length clients then [None] else []))
                [0..<length clients])"
  using comment_loop_actors[of "snd (prepareComments carr config w)" clients config vid
      "fst (prepareComments carr config w)"]
  by (simp add: massComment_unfold[OF assms] workingComments_def new_events_prepareComments)

lemma massComment_calls:
  fixes clients :: "'r client list"
  assumes "resolveVideoId config = Some vid" and "commentsArray config w = Some carr"
  shows "filter (\<lambda>e. session_of e \<noteq> None) (new_events w (snd (massComment clients config w)))
     = map (\<lambda>k. PostComment k vid (commentAt (workingComments carr config w) k)) [0..<length clients]"
  using comment_loop_calls[of "snd (prepareComments carr config w)" clients config vid
      "fst (prepareComments carr config w)"]
  by (simp add: massComment_unfold[OF assms] workingComments_def new_events_prepareComments)

lemma massLikeComment_actors:
  fixes clients :: "'r client list" and w :: "'a world"
  assumes "resolveCommentId config = Some cid"
  shows "map session_of (new_events w (snd (massLikeComment clients config w)))
     = concat (map (\<lambda>k. Some k # (if \<not> isl (like_work clients cid k)
                                     \<and> Suc k < length clients then [None] else []))
                [0..<length clients])"
  using like_loop_actors[of w clients config cid]
  by (simp add: massLikeComment_unfold[OF assms])

subsection \<open>Results\<close>

lemma massComment_results:
  fixes clients :: "'r client list"
  assumes "resolveVideoId config = Some vid" and "commentsArray config w = Some carr"
  shows "fst (massComment clients config w) =
     Inr (map (\<lambda>k. case comment_work clients vid (workingComments carr config w) k of
                 Inr res \<Rightarrow> \<lparr>account = username (client.account (clients ! k)), success = True,
                             comment = commentAt (workingComments carr config w) k,
                             result = Some res, error = None\<rparr>
               | Inl message \<Rightarrow> \<lparr>account = username (client.account (clients ! k)),
                                  success = False, comment = None, result = None,
                                  error = Some message\<rparr>) [0..<length clients])"
  unfolding workingComments_def
  by (simp add: massComment_unfold[OF assms] comment_loop_results)

lemma massLikeComment_results:
  fixes clients :: "'r client list"
  assumes "resolveCommentId config = Some cid"
  shows "fst (massLikeComment clients config w) =
     Inr (map (\<lambda>k. case like_work clients cid k of
                 Inr res \<Rightarrow> \<lparr>account = username (client.account (clients ! k)), success = True,
                             comment = None, result = Some res, error = None\<rparr>
               | Inl message \<Rightarrow> \<lparr>account = username (client.account (clients ! k)),
                                  success = False, comment = None, result = None,
                                  error = Some message\<rparr>) [0..<length clients])"
  by (simp add: massLikeComment_unfold[OF assms] like_loop_results)

lemma entries_report:
  fixes clients :: "'r client list" and work :: "nat \<Rightarrow> string + 'r"
    and cm :: "nat \<Rightarrow> string option"
  defines "results \<equiv> map (\<lambda>k. case work k of
                 Inr res \<Rightarrow> \<lparr>account = username (client.account (clients ! k)), success = True,
                             comment = cm k, result = Some res, error = None\<rparr>
               | Inl message \<Rightarrow> \<lparr>account = username (client.account (clients ! k)),
                                  success = False, comment = None, result = None,
                                  error = Some message\<rparr>) [0..<length clients]"
  shows "length results = length clients"
    and "map result.account results = map (\<lambda>c. username (client.account c)) clients"
    and "map success results = map (\<lambda>i. \<not> isl (work i)) [0..<length clients]"
    and "map error results
           = map (\<lambda>i. case work i of Inl m \<Rightarrow> Some m | Inr res \<Rightarrow> None) [0..<length clients]"
    and "length (filter success results)
           = length clients - length (filter (\<lambda>i. isl (work i)) [0..<length clients])"
proof -
  show "length results = length clients" by (simp add: results_def)
  have "map result.account results
          = map (\<lambda>k. username (client.account (clients ! k))) [0..<length clients]"
    by (simp add: results_def split: sum.splits)
  also have "\<dots> = map (\<lambda>c. username (client.account c)) (map (\<lambda>k. clients ! k) [0..<length clients])"
    by (simp add: comp_def)
  finally show "map result.account results = map (\<lambda>c. username (client.account c)) clients"
    by (simp add: map_nth)
  show s: "map success results = map (\<lambda>i. \<not> isl (work i)) [0..<length clients]"
    by (simp add: results_def split: sum.splits)
  show "map error results
           = map (\<lambda>i. case work i of Inl m \<Rightarrow> Some m | Inr res \<Rightarrow> None) [0..<length clients]"
    by (simp add: results_def split: sum.splits)
  have "length (filter success results) = length (filter id (map success results))"
    by (simp add: filter_map comp_def)
  also have "\<dots> = length (filter (\<lambda>i. \<not> isl (work i)) [0..<length clients])"
    unfolding s by (simp add: filter_map comp_def)
  finally show "length (filter success results)
           = length clients - length (filter (\<lambda>i. isl (work i)) [0..<length clients])"
    using sum_length_filter_compl[of "\<lambda>i. isl (work i)" "[0..<length clients]"] by simp
qed

section \<open>Evaluating the mass operations\<close>

lemmas eval_defs = massComment_def massLikeComment_def resolveVideoId_def resolveCommentId_def
  prepareComments_def shuffleArray_def spread_def shuffle_loop.simps shuffle_step_def
  Math_random_def js_get_def js_set_def comments_world_def for_loop.simps
  massComment_session_def massLikeComment_session_def postComment_def likeComment_def
  commentAt_def randomDelay_def or_default_def new_events_def truthy_def extractVideoId_def
  is_digit_def shuffled_config_def ordered_config_def like_config_def good_client_def
  bad_client_def valid_account_def second_account_def start_world_def Let_def
  comment_work_def like_work_def workingComments_def unit_source_def sublist_code(3)
  commentsArray_def no_comments_config_def

text \<open>The example of the specification for the extraction of a video id.\<close>

lemma extractVideoId_example:
  "extractVideoId (Some ''https://x.tiktok.com/@u/video/123456'') = Some ''123456''"
  "extractVideoId (Some ''https://x.tiktok.com/@u'') = None"
  by (simp_all add: extractVideoId_def is_digit_def)

section \<open>The report of a mass operation\<close>

text \<open>
  Claim C1 says that \<open>massComment\<close> returns a list of results for every configuration with
  a resolvable target. A configuration with a target and without a \<open>comments\<close> list makes
  the spread before the loop raise a \<open>TypeError\<close>, and no list is returned.
\<close>

theorem mass_results_counterexample:
  "resolveVideoId no_comments_config = Some ''42''
   \<and> fst (massComment [good_client, good_client] no_comments_config (comments_world (1/2)))
       = Inl TypeError"
  by (simp add: massComment_def resolveVideoId_def commentsArray_def no_comments_config_def
      truthy_def)

text \<open>
  Claim C1, amended. With a resolvable target and, for \<open>massComment\<close>, a configured array of
  comments, \<open>massComment\<close> and \<open>massLikeComment\<close> return a list with one entry per session,
  in the order of the sessions (the entries name the sessions' accounts in that order).
  The entry of a session is a success exactly when its unit of work did not raise, so that
  with \<open>k\<close> raising sessions out of \<open>N\<close> there are \<open>N - k\<close> successes, and the entry of a
  session that raised carries the message of its error.
\<close>

theorem mass_results:
  fixes clients :: "'r client list" and lw :: "'a world"
  assumes "resolveVideoId config = Some vid" and "commentsArray config w = Some carr"
      and "resolveCommentId lconfig = Some cid"
  shows "(\<exists>results. fst (massComment clients config w) = Inr results
           \<and> length results = length clients
           \<and> map result.account results = map (\<lambda>c. username (client.account c)) clients
           \<and> map success results
               = map (\<lambda>i. \<not> isl (comment_work clients vid (workingComments carr config w) i))
                   [0..<length clients]
           \<and> map error results
               = map (\<lambda>i. case comment_work clients vid (workingComments carr config w) i of
                             Inl m \<Rightarrow> Some m | Inr res \<Rightarrow> None) [0..<length clients]
           \<and> length (filter success results)
               = length clients
                 - length (filter (\<lambda>i. isl (comment_work clients vid (workingComments carr config w) i))
                     [0..<length clients]))
       \<and> (\<exists>results. fst (massLikeComment clients lconfig lw) = Inr results
           \<and> length results = length clients
           \<and> map result.account results = map (\<lambda>c. username (client.account c)) clients
           \<and> map success results
               = map (\<lambda>i. \<not> isl (like_work clients cid i)) [0..<length clients]
           \<and> map error results
               = map (\<lambda>i. case like_work clients cid i of Inl m \<Rightarrow> Some m | Inr res \<Rightarrow> None)
                   [0..<length clients]
           \<and> length (filter success results)
               = length clients
                 - length (filter (\<lambda>i. isl (like_work clients cid i)) [0..<length clients]))"
proof (intro conjI)
  show "\<exists>results. fst (massComment clients config w) = Inr results
           \<and> length results = length clients
           \<and> map result.account results = map (\<lambda>c. username (client.account c)) clients
           \<and> map success results
               = map (\<lambda>i. \<not> isl (comment_work clients vid (workingComments carr config w) i))
                   [0..<length clients]
           \<and> map error results
               = map (\<lambda>i. case comment_work clients vid (workingComments carr config w) i of
                             Inl m \<Rightarrow> Some m | Inr res \<Rightarrow> None) [0..<length clients]
           \<and> length (filter success results)
               = length clients
                 - length (filter (\<lambda>i. isl (comment_work clients vid (workingComments carr config w) i))
                     [0..<length clients])"
    using massComment_results[OF assms(1,2), of clients]
      entries_report[where clients = clients
        and work = "comment_work clients vid (workingComments carr config w)"
        and cm = "commentAt (workingComments carr config w)"]
    by blast
  show "\<exists>results. fst (massLikeComment clients lconfig lw) = Inr results
           \<and> length results = length clients
           \<and> map result.account results = map (\<lambda>c. username (client.account c)) clients
           \<and> map success results
               = map (\<lambda>i. \<not> isl (like_work clients cid i)) [0..<length clients]
           \<and> map error results
               = map (\<lambda>i. case like_work clients cid i of Inl m \<Rightarrow> Some m | Inr res \<Rightarrow> None)
                   [0..<length clients]
           \<and> length (filter success results)
               = length clients
                 - length (filter (\<lambda>i. isl (like_work clients cid i)) [0..<length clients])"
    using massLikeComment_results[OF assms(3), of clients lw]
      entries_report[where clients = clients and work = "like_work clients cid"
        and cm = "\<lambda>k. None"]
    by blast
qed

theorem mass_results_witness:
  "resolveVideoId shuffled_config = Some ''1234567890''
   \<and> commentsArray shuffled_config (comments_world (1/2)) = Some 0
   \<and> resolveCommentId like_config = Some ''7234567890123456789''
   \<and> fst (massComment [bad_client, good_client, good_client] shuffled_config (comments_world (1/2)))
       = Inr [\<lparr>account = Some ''dave'', success = False, comment = None, result = None,
               error = Some ''rate limited''\<rparr>,
              \<lparr>account = Some ''bob'', success = True, comment = Some ''wow'',
               result = Some ''posted'', error = None\<rparr>,
              \<lparr>account = Some ''bob'', success = True, comment = Some ''great'',
               result = Some ''posted'', error = None\<rparr>]
   \<and> fst (massLikeComment [bad_client, good_client, good_client] like_config (comments_world (1/2)))
       = Inr [\<lparr>account = Some ''dave'', success = False, comment = None, result = None,
               error = Some ''rate limited''\<rparr>,
              \<lparr>account = Some ''bob'', success = True, comment = None,
               result = Some ''liked'', error = None\<rparr>,
              \<lparr>account = Some ''bob'', success = True, comment = None,
               result = Some ''liked'', error = None\<rparr>]"
  using mass_results[where config = shuffled_config and vid = "''1234567890''" and carr = 0
      and lconfig = like_config and cid = "''7234567890123456789''"
      and clients = "[bad_client, good_client, good_client]"
      and w = "comments_world (1/2)" and lw = "comments_world (1/2)"]
  by (simp add: eval_defs)

section \<open>The delay between sessions\<close>

text \<open>
  Claim C2 says that the delay between session \<open>i\<close> and session \<open>i + 1\<close> is performed also
  when session \<open>i\<close> raises. With two sessions of which the first raises, no wait lies
  between the two client calls.
\<close>

theorem delay_counterexample:
  "\<not> sublist [Some 0, None, Some 1]
       (map session_of (new_events (comments_world (1/2))
          (snd (massComment [bad_client, good_client] shuffled_config (comments_world (1/2))))))"
  by (simp add: eval_defs)

text \<open>
  Claim C2, amended. In every run of \<open>massComment\<close> (with a resolvable target and a
  configured array of comments) and of \<open>massLikeComment\<close> (with a comment id), for every
  session \<open>i\<close> that is not the last, a wait lies between the client call of session \<open>i\<close>
  and that of session \<open>i + 1\<close> exactly when the unit of work of session \<open>i\<close> did not raise;
  when it raised, the call of session \<open>i + 1\<close> follows at once.
\<close>

theorem delay_only_after_success:
  fixes clients :: "'r client list" and lw :: "'a world"
  assumes "resolveVideoId config = Some vid"
      and "commentsArray config w = Some carr"
      and "resolveCommentId lconfig = Some cid"
      and "Suc i < length clients"
  shows "(sublist [Some i, None, Some (Suc i)]
            (map session_of (new_events w (snd (massComment clients config w))))
          \<longleftrightarrow> \<not> isl (comment_work clients vid (workingComments carr config w) i))
       \<and> sublist (Some i # (if \<not> isl (comment_work clients vid (workingComments carr config w) i)
                             then [None] else []) @ [Some (Suc i)])
            (map session_of (new_events w (snd (massComment clients config w))))
       \<and> (sublist [Some i, None, Some (Suc i)]
            (map session_of (new_events lw (snd (massLikeComment clients lconfig lw))))
          \<longleftrightarrow> \<not> isl (like_work clients cid i))
       \<and> sublist (Some i # (if \<not> isl (like_work clients cid i) then [None] else [])
                     @ [Some (Suc i)])
            (map session_of (new_events lw (snd (massLikeComment clients lconfig lw))))"
  unfolding massComment_actors[OF assms(1,2)] massLikeComment_actors[OF assms(3)]
  using actors_delay[OF assms(4),
          of "\<lambda>k. \<not> isl (comment_work clients vid (workingComments carr config w) k)"]
        actors_delay[OF assms(4), of "\<lambda>k. \<not> isl (like_work clients cid k)"]
  by blast

theorem delay_only_after_success_witness:
  "resolveVideoId shuffled_config = Some ''1234567890''
   \<and> commentsArray shuffled_config (comments_world (1/2)) = Some 0
   \<and> resolveCommentId like_config = Some ''7234567890123456789''
   \<and> Suc 0 < length [bad_client, good_client, good_client]
   \<and> map session_of (new_events (comments_world (1/2))
        (snd (massComment [bad_client, good_client, good_client] shuffled_config
               (comments_world (1/2)))))
       = [Some 0, Some 1, None, Some 2]
   \<and> map session_of (new_events (comments_world (1/2))
        (snd (massLikeComment [bad_client, good_client, good_client] like_config
               (comments_world (1/2)))))
       = [Some 0, Some 1, None, Some 2]"
  using delay_only_after_success[where config = shuffled_config and vid = "''1234567890''"
      and carr = 0 and lconfig = like_config and cid = "''7234567890123456789''" and i = 0
      and clients = "[bad_client, good_client, good_client]"
      and w = "comments_world (1/2)" and lw = "comments_world (1/2)"]
    delay_only_after_success[where config = shuffled_config and vid = "''1234567890''"
      and carr = 0 and lconfig = like_config and cid = "''7234567890123456789''" and i = 1
      and clients = "[bad_client, good_client, good_client]"
      and w = "comments_world (1/2)" and lw = "comments_world (1/2)"]
  by (simp add: eval_defs)

section \<open>Cyclic assignment of comments\<close>

lemma workingComments_plain:
  "\<not> randomizeOrder config \<Longrightarrow> workingComments carr config w = arrays w carr"
  by (simp add: workingComments_def prepareComments_def split_beta spread_frame)

lemma workingComments_mset:
  assumes "unit_source (random w)"
  shows "mset (workingComments carr config w) = mset (arrays w carr)"
proof (cases "randomizeOrder config")
  case False
  then show ?thesis by (simp add: workingComments_plain)
next
  case True
  let ?w1 = "snd (spread carr w)"
  have "unit_source (random ?w1)" using assms by (simp add: spread_frame)
  from shuffleArray_mset[OF this, of "next_ref w"]
  have "mset (arrays (snd (shuffleArray (next_ref w) ?w1)) (fst (shuffleArray (next_ref w) ?w1)))
          = mset (arrays w carr)"
    by (simp add: spread_frame)
  then show ?thesis
    using True by (simp add: workingComments_def prepareComments_def split_beta spread_frame)
qed

lemma commentAt_mod:
  assumes "0 < length cs"
  shows "commentAt cs i = cs ! (i mod length cs)"
proof -
  have "int i mod int (length cs) = int (i mod length cs)" by (simp add: zmod_int)
  moreover have "i mod length cs < length cs" using assms by simp
  ultimately show ?thesis using assms by (simp add: commentAt_def js_get_def)
qed

lemma filter_eq_upt: "filter (\<lambda>k. k = i) [0..<n] = (if i < n then [i] else [])"
  by (induction n) auto

text \<open>
  Claim C8. In \<open>massComment\<close> with a resolvable target and an array of \<open>m > 0\<close>
  configured comments, the session at index \<open>i\<close>
  posts the comment at index \<open>i mod m\<close> of the list the loop reads, whatever the number of
  sessions, so with more sessions than comments the comments are reused cyclically. That
  list is a permutation of the configured comments, and is the configured list itself when
  \<open>randomizeOrder\<close> is off.
\<close>

theorem cyclic_comment_assignment:
  fixes clients :: "'r client list"
  assumes "resolveVideoId config = Some vid"
      and "commentsArray config w = Some carr"
      and "unit_source (random w)"
      and "0 < length (arrays w carr)"
      and "i < length clients"
  shows "filter (\<lambda>e. session_of e = Some i) (new_events w (snd (massComment clients config w)))
           = [PostComment i vid
                (workingComments carr config w ! (i mod length (arrays w carr)))]
       \<and> mset (workingComments carr config w) = mset (arrays w carr)
       \<and> (\<not> randomizeOrder config \<longrightarrow> workingComments carr config w = arrays w carr)"
proof -
  let ?T = "new_events w (snd (massComment clients config w))"
  let ?cs = "workingComments carr config w"
  note m = workingComments_mset[OF assms(3), of carr config]
  have len: "length ?cs = length (arrays w carr)"
    using mset_eq_length[OF m] .
  have "filter (\<lambda>e. session_of e = Some i) ?T
          = filter (\<lambda>e. session_of e = Some i) (filter (\<lambda>e. session_of e \<noteq> None) ?T)"
    by (simp add: conj_commute cong: conj_cong)
  also have "\<dots> = map (\<lambda>k. PostComment k vid (commentAt ?cs k))
                      (filter (\<lambda>k. k = i) [0..<length clients])"
    unfolding massComment_calls[OF assms(1,2)] by (simp add: filter_map comp_def)
  also have "\<dots> = [PostComment i vid (commentAt ?cs i)]"
    using assms(5) by (simp add: filter_eq_upt)
  finally show ?thesis
    using m len assms(4) by (simp add: commentAt_mod workingComments_plain)
qed

theorem cyclic_comment_assignment_witness:
  "resolveVideoId shuffled_config = Some ''1234567890''
   \<and> unit_source (random (comments_world (1/2)))
   \<and> commentsArray shuffled_config (comments_world (1/2)) = Some 0
   \<and> commentsArray ordered_config (comments_world (1/2)) = Some 0
   \<and> 0 < length (arrays (comments_world (1/2)) 0)
   \<and> 3 < length [good_client, bad_client, good_client, good_client]
   \<and> filter (\<lambda>e. session_of e = Some 3) (new_events (comments_world (1/2))
        (snd (massComment [good_client, bad_client, good_client, good_client] shuffled_config
               (comments_world (1/2)))))
       = [PostComment 3 ''1234567890'' (Some ''nice'')]
   \<and> workingComments 0 shuffled_config (comments_world (1/2))
       = [Some ''nice'', Some ''wow'', Some ''great'']
   \<and> \<not> randomizeOrder ordered_config
   \<and> workingComments 0 ordered_config (comments_world (1/2))
       = [Some ''nice'', Some ''great'', Some ''wow'']"
  using cyclic_comment_assignment[where config = shuffled_config and vid = "''1234567890''"
      and carr = 0 and w = "comments_world (1/2)" and i = 3
      and clients = "[good_client, bad_client, good_client, good_client]"]
    cyclic_comment_assignment[where config = ordered_config and vid = "''42''"
      and carr = 0 and w = "comments_world (1/2)" and i = 1
      and clients = "[good_client, bad_client, good_client, good_client]"]
  by (simp add: eval_defs)

section \<open>The configuration is only read\<close>

text \<open>
  Claim C9. A run of \<open>massComment\<close>, with or without \<open>randomizeOrder\<close>, leaves every array
  that existed before the call as it was, the configured comments in particular: the
  shuffle works on a copy. (The other fields of the configuration are values, which the
  function has no means to change.) \<open>massLikeComment\<close> changes no array at all.
\<close>

theorem config_not_mutated:
  fixes clients :: "'r client list" and lw :: "'a world"
  assumes "comments config = Some carr" and "carr < next_ref w"
  shows "arrays (snd (massComment clients config w)) carr = arrays w carr
       \<and> (\<forall>r < next_ref w. arrays (snd (massComment clients config w)) r = arrays w r)
       \<and> arrays (snd (massLikeComment clients lconfig lw)) = arrays lw"
proof -
  have c: "arrays (snd (massComment clients config w)) r = arrays w r" if "r < next_ref w" for r
  proof (cases "resolveVideoId config")
    case None
    then show ?thesis by (simp add: massComment_def)
  next
    case (Some vid)
    have a: "commentsArray config w = Some carr" using assms by (simp add: commentsArray_def)
    show ?thesis
      using that
      by (simp add: massComment_unfold[OF Some a] comment_loop_frame prepareComments_frame)
  qed
  have l: "arrays (snd (massLikeComment clients lconfig lw)) = arrays lw"
  proof (cases "resolveCommentId lconfig")
    case None
    then show ?thesis by (simp add: massLikeComment_def)
  next
    case (Some cid)
    show ?thesis by (simp add: massLikeComment_unfold[OF Some] like_loop_frame)
  qed
  show ?thesis using c[OF assms(2)] c l by blast
qed

theorem config_not_mutated_witness:
  "comments shuffled_config = Some 0 \<and> 0 < next_ref (comments_world (1/2))
   \<and> arrays (snd (massComment [good_client, bad_client] shuffled_config (comments_world (1/2)))) 0
       = [Some ''nice'', Some ''great'', Some ''wow'']
   \<and> arrays (snd (massComment [good_client, bad_client] shuffled_config (comments_world (1/2)))) 2
       = [Some ''nice'', Some ''wow'', Some ''great'']
   \<and> arrays (snd (massLikeComment [good_client, bad_client] like_config (comments_world (1/2)))) 0
       = [Some ''nice'', Some ''great'', Some ''wow'']"
  using config_not_mutated[where config = shuffled_config and carr = 0
      and w = "comments_world (1/2)"
      and clients = "[good_client, bad_client]" and lconfig = like_config
      and lw = "comments_world (1/2)"]
  by (simp add: eval_defs)

end
